theory Spec2Isabelle
  imports Main "HOL-Library.Word" "HOL-Library.Sublist"
begin

section \<open>JavaScript strings\<close>

text \<open>
  A JavaScript string is a sequence of UTF-16 code units. \<open>js\<close> writes a string literal
  of the source (all of them ASCII) as such a sequence.
\<close>

type_synonym jschar = "16 word"
type_synonym jsstring = "jschar list"

definition js :: "string \<Rightarrow> jsstring" where
  "js s = map (\<lambda>c. of_char c) s"

text \<open>
  \<^verbatim>\<open>String.prototype.trim\<close> strips WhiteSpace and LineTerminator code points from both ends:
  TAB, LF, VT, FF, CR, SP, NBSP, U+1680, U+2000 to U+200A, U+2028, U+2029, U+202F, U+205F,
  U+3000 and U+FEFF.
\<close>

definition isWhiteSpace :: "jschar \<Rightarrow> bool" where
  "isWhiteSpace c =
     (c = 0x9 \<or> c = 0xA \<or> c = 0xB \<or> c = 0xC \<or> c = 0xD \<or> c = 0x20 \<or> c = 0xA0 \<or>
      c = 0x1680 \<or> (0x2000 \<le> c \<and> c \<le> 0x200A) \<or> c = 0x2028 \<or> c = 0x2029 \<or>
      c = 0x202F \<or> c = 0x205F \<or> c = 0x3000 \<or> c = 0xFEFF)"

definition trim :: "jsstring \<Rightarrow> jsstring" where
  "trim s = rev (dropWhile isWhiteSpace (rev (dropWhile isWhiteSpace s)))"

text \<open>\<^verbatim>\<open>s.includes(pat)\<close>: \<open>pat\<close> occurs in \<open>s\<close> as a contiguous substring.\<close>

fun includes_str :: "jsstring \<Rightarrow> jsstring \<Rightarrow> bool" where
  "includes_str [] pat = (pat = [])"
| "includes_str (c # cs) pat = (prefix pat (c # cs) \<or> includes_str cs pat)"

text \<open>\<^verbatim>\<open>s.replace(":", "")\<close>: only the first colon is removed.\<close>

fun replace_colon :: "jsstring \<Rightarrow> jsstring" where
  "replace_colon [] = []"
| "replace_colon (c # cs) = (if c = 0x3A then cs else c # replace_colon cs)"

section \<open>Data model\<close>

text \<open>
  The stored value under the key \<^verbatim>\<open>domains\<close>: an array of variant sets, each an array of
  objects \<^verbatim>\<open>{name, protocol, domain}\<close>.
\<close>

record variant =
  name :: jsstring
  protocol :: jsstring
  domain :: jsstring

type_synonym variantSet = "variant list"
type_synonym collection = "variantSet list"

text \<open>
  \<^verbatim>\<open>chrome.storage.sync\<close>, reduced to the one key the program uses: \<open>None\<close> while the key was
  never written. \<^verbatim>\<open>get({ domains: [] }, ...)\<close> hands the callback the default \<^verbatim>\<open>[]\<close> then.
  Writes are taken to succeed (the source never looks at \<^verbatim>\<open>chrome.runtime.lastError\<close>).
\<close>

type_synonym storage = "collection option"

definition storage_get :: "storage \<Rightarrow> collection" where
  "storage_get st = (case st of None \<Rightarrow> [] | Some domains \<Rightarrow> domains)"

definition storage_set :: "collection \<Rightarrow> storage" where
  "storage_set domains = Some domains"

text \<open>
  The array a \<^verbatim>\<open>get\<close> callback receives is deserialised afresh, so each of its sets is an
  object of its own, even when two sets are equal by value. An object's identity is its
  position in that array; \<open>loaded\<close> pairs every set with it.
\<close>

type_synonym setObject = "nat \<times> variantSet"

definition loaded :: "collection \<Rightarrow> setObject list" where
  "loaded domains = enumerate 0 domains"

section \<open>The browser's URL objects\<close>

text \<open>
  \<^verbatim>\<open>new URL(tab.url)\<close> is the browser's, not the repository's. A parsed URL is the URL record
  of the WHATWG URL Standard; the two setters \<^verbatim>\<open>switchDomain\<close> assigns to, and the two getters
  \<^verbatim>\<open>loadDomains\<close> reads, follow the Standard's algorithms. A null host, port, query or
  fragment is \<open>None\<close>; the empty host is \<open>Some []\<close>.
\<close>

datatype urlPath = OpaquePath jsstring | PathSegments "jsstring list"

record url =
  scheme :: jsstring
  username :: jsstring
  password :: jsstring
  host :: "jsstring option"
  port :: "nat option"
  path :: urlPath
  query :: "jsstring option"
  fragment :: "jsstring option"

definition isAsciiAlpha :: "jschar \<Rightarrow> bool" where
  "isAsciiAlpha c = ((0x41 \<le> c \<and> c \<le> 0x5A) \<or> (0x61 \<le> c \<and> c \<le> 0x7A))"

text \<open>ASCII alphanumeric, \<^verbatim>\<open>+\<close>, \<^verbatim>\<open>-\<close> or \<^verbatim>\<open>.\<close>: what the scheme state appends to its buffer.\<close>

definition isSchemeChar :: "jschar \<Rightarrow> bool" where
  "isSchemeChar c =
     (isAsciiAlpha c \<or> (0x30 \<le> c \<and> c \<le> 0x39) \<or> c = 0x2B \<or> c = 0x2D \<or> c = 0x2E)"

definition asciiLower :: "jschar \<Rightarrow> jschar" where
  "asciiLower c = (if 0x41 \<le> c \<and> c \<le> 0x5A then c + 0x20 else c)"

definition isTabOrNewline :: "jschar \<Rightarrow> bool" where
  "isTabOrNewline c = (c = 0x9 \<or> c = 0xA \<or> c = 0xD)"

definition isSpecial :: "jsstring \<Rightarrow> bool" where
  "isSpecial s = (s = js ''ftp'' \<or> s = js ''file'' \<or> s = js ''http'' \<or> s = js ''https'' \<or>
     s = js ''ws'' \<or> s = js ''wss'')"

definition defaultPort :: "jsstring \<Rightarrow> nat option" where
  "defaultPort s =
     (if s = js ''ftp'' then Some 21
      else if s = js ''http'' \<or> s = js ''ws'' then Some 80
      else if s = js ''https'' \<or> s = js ''wss'' then Some 443
      else None)"

definition includesCredentials :: "url \<Rightarrow> bool" where
  "includesCredentials u = (username u \<noteq> [] \<or> password u \<noteq> [])"

text \<open>The getters: \<^verbatim>\<open>url.protocol\<close> is the scheme followed by a colon, \<^verbatim>\<open>url.hostname\<close> the
  host, or the empty string for a null host.\<close>

definition get_protocol :: "url \<Rightarrow> jsstring" where
  "get_protocol u = scheme u @ js '':''"

definition get_hostname :: "url \<Rightarrow> jsstring" where
  "get_hostname u = (case host u of None \<Rightarrow> [] | Some h \<Rightarrow> h)"

text \<open>
  The \<^verbatim>\<open>protocol\<close> setter runs the basic URL parser on the given value followed by a colon,
  with the scheme start state as state override, after removing every ASCII tab and newline.
  The scheme start state fails unless the first code point is an ASCII alpha; the scheme
  state collects the lower-cased scheme up to the first colon and fails on any other code
  point. A failure, and each of the three refusals (special against non-special scheme,
  \<^verbatim>\<open>file\<close> for a URL with credentials or a port, a \<^verbatim>\<open>file\<close> URL with an empty host), leaves
  the URL as it was. Otherwise the scheme is set, and a port that is the new scheme's
  default port becomes null. \<open>overrideScheme\<close> is what the scheme state does at the colon,
  \<open>schemeOverride\<close> the run of the two states over the input.
\<close>

definition overrideScheme :: "url \<Rightarrow> jsstring \<Rightarrow> url" where
  "overrideScheme u buffer =
     (if isSpecial (scheme u) \<noteq> isSpecial buffer then u
      else if (includesCredentials u \<or> port u \<noteq> None) \<and> buffer = js ''file'' then u
      else if scheme u = js ''file'' \<and> host u = Some [] then u
      else u\<lparr>scheme := buffer,
             port := (if port u = defaultPort buffer then None else port u)\<rparr>)"

definition schemeOverride :: "url \<Rightarrow> jsstring \<Rightarrow> url" where
  "schemeOverride u input =
     (case input of
        [] \<Rightarrow> u
      | c # cs \<Rightarrow>
          if \<not> isAsciiAlpha c then u
          else
            (case dropWhile isSchemeChar input of
               [] \<Rightarrow> u
             | d # ds \<Rightarrow>
                 if d \<noteq> 0x3A then u
                 else overrideScheme u (map asciiLower (takeWhile isSchemeChar input))))"

definition set_protocol :: "url \<Rightarrow> jsstring \<Rightarrow> url" where
  "set_protocol u v = schemeOverride u (filter (\<lambda>c. \<not> isTabOrNewline c) (v @ js '':''))"

text \<open>
  The \<^verbatim>\<open>hostname\<close> setter does nothing on a URL with an opaque path; otherwise it runs the
  parser with the hostname state as state override. \<open>hostnameBuffer\<close> is the scan of that
  state: a colon outside brackets is a failure (\<open>None\<close>); the end of the input, \<^verbatim>\<open>/\<close>, \<^verbatim>\<open>?\<close>,
  \<^verbatim>\<open>#\<close> and, for a special URL, a backslash end the host.
\<close>

fun hostnameBuffer :: "bool \<Rightarrow> bool \<Rightarrow> jsstring \<Rightarrow> jsstring \<Rightarrow> jsstring option" where
  "hostnameBuffer special insideBrackets buffer [] = Some buffer"
| "hostnameBuffer special insideBrackets buffer (c # cs) =
     (if c = 0x3A \<and> \<not> insideBrackets then None
      else if c = 0x2F \<or> c = 0x3F \<or> c = 0x23 \<or> (special \<and> c = 0x5C) then Some buffer
      else hostnameBuffer special
             (if c = 0x5B then True else if c = 0x5D then False else insideBrackets)
             (buffer @ [c]) cs)"

definition isFileHostEnd :: "jschar \<Rightarrow> bool" where
  "isFileHostEnd c = (c = 0x2F \<or> c = 0x5C \<or> c = 0x3F \<or> c = 0x23)"

text \<open>
  The Standard's host parser (domain to ASCII, IPv4 and IPv6 addresses, opaque hosts) is
  a parameter: it takes the buffer and the flag \<^verbatim>\<open>isOpaque\<close>, and \<open>None\<close> is its failure.
\<close>

type_synonym hostParser = "jsstring \<Rightarrow> bool \<Rightarrow> jsstring option"

text \<open>The hostname state for a \<^verbatim>\<open>file\<close> URL is the file host state; for the others the host
  state, which refuses an empty host on a special URL and on a URL with credentials or a
  port.\<close>

definition hostnameOverride :: "hostParser \<Rightarrow> url \<Rightarrow> jsstring \<Rightarrow> url" where
  "hostnameOverride hostParse u input =
     (if scheme u = js ''file'' then
        (let buffer = takeWhile (\<lambda>c. \<not> isFileHostEnd c) input in
         if buffer = [] then u\<lparr>host := Some []\<rparr>
         else
           (case hostParse buffer False of
              None \<Rightarrow> u
            | Some h \<Rightarrow> u\<lparr>host := Some (if h = js ''localhost'' then [] else h)\<rparr>))
      else
        (case hostnameBuffer (isSpecial (scheme u)) False [] input of
           None \<Rightarrow> u
         | Some buffer \<Rightarrow>
             if isSpecial (scheme u) \<and> buffer = [] then u
             else if buffer = [] \<and> (includesCredentials u \<or> port u \<noteq> None) then u
             else
               (case hostParse buffer (\<not> isSpecial (scheme u)) of
                  None \<Rightarrow> u
                | Some h \<Rightarrow> u\<lparr>host := Some h\<rparr>)))"

definition set_hostname :: "hostParser \<Rightarrow> url \<Rightarrow> jsstring \<Rightarrow> url" where
  "set_hostname hostParse u v =
     (case path u of
        OpaquePath p \<Rightarrow> u
      | PathSegments ps \<Rightarrow> hostnameOverride hostParse u (filter (\<lambda>c. \<not> isTabOrNewline c) v))"

section \<open>Adding a variant group (addNewDomainVariantGroup)\<close>

text \<open>
  One \<^verbatim>\<open>.variant-group\<close> element of the form, as the \<^verbatim>\<open>value\<close> of its three inputs
  \<^verbatim>\<open>#nameInput\<close>, \<^verbatim>\<open>#protocolInput\<close> and \<^verbatim>\<open>#domainInput\<close>.
\<close>

record variantGroup =
  nameInput_value :: jsstring
  protocolInput_value :: jsstring
  domainInput_value :: jsstring

text \<open>
  The five alerts, each with the number \<^verbatim>\<open>index + 1\<close> the message ends on: "Please enter a
  valid protocol (http or https) in variant n", "... a valid domain in variant n", "... a
  valid domain without protocol in variant n", "... a valid domain without path in
  variant n" and "... a valid name for the domain in variant n".
\<close>

datatype alert =
    InvalidProtocol nat
  | InvalidDomain nat
  | DomainWithProtocol nat
  | DomainWithPath nat
  | InvalidName nat

text \<open>
  The callback of \<^verbatim>\<open>variantGroups.forEach\<close>: \<open>Some\<close> is the alert it raises before it
  returns, \<open>None\<close> a run to its end without an alert. The length of the name is not looked
  at; the markup of the inputs carries \<^verbatim>\<open>maxlength="30"\<close>.
\<close>

definition validateGroup :: "variantGroup \<Rightarrow> nat \<Rightarrow> alert option" where
  "validateGroup grp index =
     (let nameInput = trim (nameInput_value grp);
          protocolInput = trim (protocolInput_value grp);
          domainInput = trim (domainInput_value grp)
      in
        if protocolInput \<noteq> js ''http'' \<and> protocolInput \<noteq> js ''https''
          then Some (InvalidProtocol (index + 1))
        else if domainInput = [] then Some (InvalidDomain (index + 1))
        else if includes_str domainInput (js ''://'') then Some (DomainWithProtocol (index + 1))
        else if includes_str domainInput (js ''/'') then Some (DomainWithPath (index + 1))
        else if nameInput = [] then Some (InvalidName (index + 1))
        else None)"

text \<open>
  \<^verbatim>\<open>forEach\<close> calls the callback on every group in order, whatever the earlier calls did: a
  \<^verbatim>\<open>return\<close> in the callback ends that call only.
\<close>

definition validationAlerts :: "variantGroup list \<Rightarrow> alert list" where
  "validationAlerts variantGroups =
     List.map_filter (\<lambda>(index, g). validateGroup g index) (enumerate 0 variantGroups)"

text \<open>\<^verbatim>\<open>Array.from(variantGroups).map(...)\<close>: the object built from each group.\<close>

definition thisVariantSet :: "variantGroup list \<Rightarrow> variantSet" where
  "thisVariantSet variantGroups =
     map (\<lambda>g. \<lparr>name = trim (nameInput_value g),
                protocol = trim (protocolInput_value g),
                domain = trim (domainInput_value g)\<rparr>) variantGroups"

text \<open>
  The callback of \<^verbatim>\<open>chrome.storage.sync.get\<close> in \<^verbatim>\<open>addNewDomainVariantGroup\<close>: copy the
  stored array, push the new set, write the copy back.
\<close>

definition pushVariantSet :: "variantSet \<Rightarrow> storage \<Rightarrow> storage" where
  "pushVariantSet newSet st = (let domainsCpy = storage_get st @ [newSet] in storage_set domainsCpy)"

text \<open>The function as a whole: the alerts raised, in order, and the storage it leaves.\<close>

definition addNewDomainVariantGroup :: "variantGroup list \<Rightarrow> storage \<Rightarrow> alert list \<times> storage" where
  "addNewDomainVariantGroup variantGroups st =
     (validationAlerts variantGroups, pushVariantSet (thisVariantSet variantGroups) st)"

section \<open>Matching the active tab (loadDomains)\<close>

text \<open>
  The callback of \<^verbatim>\<open>set.some\<close> in \<^verbatim>\<open>loadDomains\<close>: strict equality of both strings.
\<close>

definition isCurrent :: "jsstring \<Rightarrow> jsstring \<Rightarrow> variant \<Rightarrow> bool" where
  "isCurrent currentProtocol currentDomain item =
     (protocol item = currentProtocol \<and> domain item = currentDomain)"

text \<open>\<^verbatim>\<open>domains.find((set) => set.some(...))\<close>; \<open>None\<close> is \<^verbatim>\<open>undefined\<close>.\<close>

definition currentDomainSet :: "jsstring \<Rightarrow> jsstring \<Rightarrow> setObject list \<Rightarrow> setObject option" where
  "currentDomainSet currentProtocol currentDomain domains =
     find (\<lambda>obj. list_ex (isCurrent currentProtocol currentDomain) (snd obj)) domains"

text \<open>
  The tab \<^verbatim>\<open>loadDomains\<close> works with: the scheme and hostname of the active tab's URL, or
  the pair \<^verbatim>\<open>switchDomain\<close> passes as \<^verbatim>\<open>currentDomainOveride\<close>.
\<close>

definition currentTab :: "url \<Rightarrow> (jsstring \<times> jsstring) option \<Rightarrow> jsstring \<times> jsstring" where
  "currentTab tabUrl currentDomainOveride =
     (case currentDomainOveride of
        None \<Rightarrow> (replace_colon (get_protocol tabUrl), get_hostname tabUrl)
      | Some (newProtocol, newDomain) \<Rightarrow> (newProtocol, newDomain))"

text \<open>
  \<^verbatim>\<open>currentDomainSet.forEach\<close>: a "Switch to" button for every item that passes the test
  \<^verbatim>\<open>item.domain !== currentDomain\<close>, in the order of the set.
\<close>

definition switchButtons :: "jsstring \<Rightarrow> variantSet \<Rightarrow> variant list" where
  "switchButtons currentDomain items = filter (\<lambda>item. domain item \<noteq> currentDomain) items"

text \<open>
  What \<^verbatim>\<open>loadDomains\<close> renders. \<open>NoDomains\<close>: the stored array is empty, the placeholder
  line is shown. \<open>NoMatch\<close>: no set holds the current tab, the placeholder and the
  add-domain button are shown. \<open>Matched\<close>: the switch buttons, and the delete button with
  the two variables its handler closes over, \<^verbatim>\<open>domains\<close> and \<^verbatim>\<open>currentDomainSet\<close>.
\<close>

datatype popup =
    NoDomains
  | NoMatch
  | Matched "variant list" "setObject list" setObject

definition loadDomains :: "storage \<Rightarrow> url \<Rightarrow> (jsstring \<times> jsstring) option \<Rightarrow> popup" where
  "loadDomains st tabUrl currentDomainOveride =
     (let domains = loaded (storage_get st) in
      if length domains = 0 then NoDomains
      else
        (case currentTab tabUrl currentDomainOveride of
           (currentProtocol, currentDomain) \<Rightarrow>
             (case currentDomainSet currentProtocol currentDomain domains of
                None \<Rightarrow> NoMatch
              | Some cur \<Rightarrow> Matched (switchButtons currentDomain (snd cur)) domains cur)))"

section \<open>Deleting the matched set\<close>

text \<open>
  The click handler of "Delete All Domain Variants":
  \<^verbatim>\<open>domains.filter((set) => set !== currentDomainSet)\<close> compares objects by identity, then
  the filtered array is written back.
\<close>

definition deleteHandler :: "setObject list \<Rightarrow> setObject \<Rightarrow> storage" where
  "deleteHandler domains cur =
     storage_set (map snd (filter (\<lambda>obj. fst obj \<noteq> fst cur) domains))"

text \<open>A click on the delete button of a popup; only a \<open>Matched\<close> popup has the button.\<close>

definition clickDelete :: "popup \<Rightarrow> storage \<Rightarrow> storage" where
  "clickDelete p st =
     (case p of
        Matched buttons domains cur \<Rightarrow> deleteHandler domains cur
      | NoDomains \<Rightarrow> st
      | NoMatch \<Rightarrow> st)"

section \<open>Switching the tab (switchDomain)\<close>

text \<open>
  The callback of \<^verbatim>\<open>chrome.tabs.query\<close> in \<^verbatim>\<open>switchDomain\<close>: the parsed URL of the active
  tab, with \<^verbatim>\<open>protocol\<close> assigned \<^verbatim>\<open>newProtocol + ":"\<close> and then \<^verbatim>\<open>hostname\<close> assigned
  \<^verbatim>\<open>newDomain\<close>. The result is the URL whose serialisation the tab is sent to.
\<close>

definition switchedUrl :: "hostParser \<Rightarrow> jsstring \<Rightarrow> jsstring \<Rightarrow> url \<Rightarrow> url" where
  "switchedUrl hostParse newProtocol newDomain tabUrl =
     (let url1 = set_protocol tabUrl (newProtocol @ js '':'');
          url2 = set_hostname hostParse url1 newDomain
      in url2)"

text \<open>
  \<^verbatim>\<open>switchDomain\<close>: the tab is sent to the rewritten URL, and the popup is rendered again
  with the target as the current protocol and domain.
\<close>

definition switchDomain ::
  "hostParser \<Rightarrow> jsstring \<Rightarrow> jsstring \<Rightarrow> url \<Rightarrow> storage \<Rightarrow> url \<times> popup" where
  "switchDomain hostParse newProtocol newDomain tabUrl st =
     (switchedUrl hostParse newProtocol newDomain tabUrl,
      loadDomains st tabUrl (Some (newProtocol, newDomain)))"

section \<open>Notions of the statements, and example data\<close>

text \<open>A string that neither starts nor ends with a code point \<^verbatim>\<open>trim\<close> strips.\<close>

definition noOuterWhiteSpace :: "jsstring \<Rightarrow> bool" where
  "noOuterWhiteSpace s = (s = [] \<or> (\<not> isWhiteSpace (hd s) \<and> \<not> isWhiteSpace (last s)))"

text \<open>A group whose three inputs hold the trimmed text of another group's.\<close>

definition trimmedGroup :: "variantGroup \<Rightarrow> variantGroup" where
  "trimmedGroup g = \<lparr>nameInput_value = trim (nameInput_value g),
     protocolInput_value = trim (protocolInput_value g),
     domainInput_value = trim (domainInput_value g)\<rparr>"

text \<open>Three variants: a live site, its test site, and the plain-http twin of the live site.\<close>

definition live :: variant where
  "live = \<lparr>name = js ''Live'', protocol = js ''https'', domain = js ''example.com''\<rparr>"

definition test :: variant where
  "test = \<lparr>name = js ''Test'', protocol = js ''https'', domain = js ''test.example.com''\<rparr>"

definition plain :: variant where
  "plain = \<lparr>name = js ''Plain'', protocol = js ''http'', domain = js ''example.com''\<rparr>"

text \<open>The URL \<^verbatim>\<open>s://h/docs/index.html?page=2#top\<close> of a tab.\<close>

definition webTab :: "jsstring \<Rightarrow> jsstring \<Rightarrow> url" where
  "webTab s h = \<lparr>scheme = s, username = [], password = [], host = Some h, port = None,
     path = PathSegments [js ''docs'', js ''index.html''], query = Some (js ''page=2''),
     fragment = Some (js ''top'')\<rparr>"

text \<open>The URL \<^verbatim>\<open>http://example.com:443/docs\<close> of a tab.\<close>

definition portTab :: url where
  "portTab = \<lparr>scheme = js ''http'', username = [], password = [],
     host = Some (js ''example.com''), port = Some 443,
     path = PathSegments [js ''docs''], query = None, fragment = None\<rparr>"

text \<open>
  A host parser for the examples: what the Standard's parser does on a plain ASCII domain
  (lower-casing), with its failure on the empty input.
\<close>

definition asciiHost :: hostParser where
  "asciiHost input isOpaque = (if input = [] then None else Some (map asciiLower input))"

text \<open>A group with a name of 31 characters, a valid protocol and a valid domain.\<close>

definition longNameGroup :: variantGroup where
  "longNameGroup = \<lparr>nameInput_value = js ''abcdefghijklmnopqrstuvwxyz01234'',
     protocolInput_value = js ''https'', domainInput_value = js ''example.com''\<rparr>"

section \<open>Properties of the matcher\<close>

lemma loaded_nth: "i < length c \<Longrightarrow> loaded c ! i = (i, c ! i)"
  by (simp add: loaded_def nth_enumerate_eq)

lemma loaded_length: "length (loaded c) = length c"
  by (simp add: loaded_def)

lemma some_iff: "list_ex (isCurrent p h) s \<longleftrightarrow> (\<exists>v \<in> set s. protocol v = p \<and> domain v = h)"
  by (simp add: list_ex_iff isCurrent_def)

lemma currentDomainSet_None:
  "currentDomainSet p h (loaded c) = None \<longleftrightarrow>
     \<not> (\<exists>s \<in> set c. \<exists>v \<in> set s. protocol v = p \<and> domain v = h)"
proof -
  have "set (loaded c) = {(i, c ! i) | i. i < length c}"
    by (auto simp: loaded_def in_set_enumerate_eq)
  then have "(\<exists>obj \<in> set (loaded c). list_ex (isCurrent p h) (snd obj))
      \<longleftrightarrow> (\<exists>i < length c. list_ex (isCurrent p h) (c ! i))"
    by auto
  also have "\<dots> \<longleftrightarrow> (\<exists>s \<in> set c. list_ex (isCurrent p h) s)"
    by (metis in_set_conv_nth nth_mem)
  finally have scan: "(\<exists>obj \<in> set (loaded c). list_ex (isCurrent p h) (snd obj))
      \<longleftrightarrow> (\<exists>s \<in> set c. list_ex (isCurrent p h) s)" .
  have "currentDomainSet p h (loaded c) = None
      \<longleftrightarrow> \<not> (\<exists>obj \<in> set (loaded c). list_ex (isCurrent p h) (snd obj))"
    by (auto simp: currentDomainSet_def find_None_iff)
  with scan show ?thesis
    unfolding some_iff by blast
qed

lemma currentDomainSet_Some:
  "currentDomainSet p h (loaded c) = Some (i, s) \<longleftrightarrow>
     i < length c \<and> s = c ! i \<and> list_ex (isCurrent p h) s \<and>
     (\<forall>j < i. \<not> list_ex (isCurrent p h) (c ! j))"
proof
  assume "currentDomainSet p h (loaded c) = Some (i, s)"
  then obtain k where k: "k < length c" "list_ex (isCurrent p h) (snd (loaded c ! k))"
      "(i, s) = loaded c ! k" "\<forall>j < k. \<not> list_ex (isCurrent p h) (snd (loaded c ! j))"
    unfolding currentDomainSet_def find_Some_iff loaded_length by blast
  from k(1,3) have "k = i" "s = c ! i"
    by (simp_all add: loaded_nth)
  with k show "i < length c \<and> s = c ! i \<and> list_ex (isCurrent p h) s \<and>
     (\<forall>j < i. \<not> list_ex (isCurrent p h) (c ! j))"
    by (auto simp: loaded_nth)
next
  assume a: "i < length c \<and> s = c ! i \<and> list_ex (isCurrent p h) s \<and>
     (\<forall>j < i. \<not> list_ex (isCurrent p h) (c ! j))"
  then have "i < length (loaded c) \<and> list_ex (isCurrent p h) (snd (loaded c ! i)) \<and>
      (i, s) = loaded c ! i \<and> (\<forall>j < i. \<not> list_ex (isCurrent p h) (snd (loaded c ! j)))"
    by (auto simp: loaded_nth loaded_length)
  then show "currentDomainSet p h (loaded c) = Some (i, s)"
    unfolding currentDomainSet_def find_Some_iff by blast
qed

text \<open>
  Claim C1. For every collection and every current tab (protocol, host), the matching
  operation scans the collection in order and returns the first variant set that contains
  a variant whose protocol and domain are equal, as strings, to the current protocol and
  host: the set at the least position \<open>i\<close> that holds such a variant. It returns no set
  exactly when no variant set of the collection contains such a variant.
\<close>

theorem find_matching_set_first_match:
  "(currentDomainSet p h (loaded c) = None \<longleftrightarrow>
      \<not> (\<exists>s \<in> set c. \<exists>v \<in> set s. protocol v = p \<and> domain v = h)) \<and>
   (\<forall>i s. currentDomainSet p h (loaded c) = Some (i, s) \<longleftrightarrow>
      i < length c \<and> s = c ! i \<and> (\<exists>v \<in> set s. protocol v = p \<and> domain v = h) \<and>
      (\<forall>j < i. \<not> (\<exists>v \<in> set (c ! j). protocol v = p \<and> domain v = h)))"
  using currentDomainSet_None [of p h c] currentDomainSet_Some [of p h c]
  by (simp add: some_iff)

theorem find_matching_set_first_match_witness:
  "currentDomainSet (js ''https'') (js ''example.com'') (loaded [[plain], [live, test], [live]])
     = Some (1, [live, test]) \<and>
   currentDomainSet (js ''https'') (js ''unrelated.com'') (loaded [[plain], [live, test], [live]])
     = None \<and>
   currentDomainSet (js ''https'') (js ''Example.com'') (loaded [[plain], [live, test], [live]])
     = None"
proof -
  let ?c = "[[plain], [live, test], [live]]"
  have a: "(1::nat) < length ?c \<and> [live, test] = ?c ! 1 \<and>
      (\<exists>v \<in> set [live, test]. protocol v = js ''https'' \<and> domain v = js ''example.com'') \<and>
      (\<forall>j < 1. \<not> (\<exists>v \<in> set (?c ! j). protocol v = js ''https'' \<and> domain v = js ''example.com''))"
    by (simp add: live_def test_def plain_def js_def)
  have b: "\<not> (\<exists>s \<in> set ?c. \<exists>v \<in> set s. protocol v = js ''https'' \<and> domain v = js ''unrelated.com'')"
    by (simp add: live_def test_def plain_def js_def)
  have c: "\<not> (\<exists>s \<in> set ?c. \<exists>v \<in> set s. protocol v = js ''https'' \<and> domain v = js ''Example.com'')"
    by (simp add: live_def test_def plain_def js_def)
  have "currentDomainSet (js ''https'') (js ''example.com'') (loaded ?c) = Some (1, [live, test])"
    using a
    by (rule find_matching_set_first_match [of "js ''https''" "js ''example.com''" ?c,
          THEN conjunct2, THEN spec, THEN spec, THEN iffD2])
  moreover have "currentDomainSet (js ''https'') (js ''unrelated.com'') (loaded ?c) = None"
    using b
    by (rule find_matching_set_first_match [of "js ''https''" "js ''unrelated.com''" ?c,
          THEN conjunct1, THEN iffD2])
  moreover have "currentDomainSet (js ''https'') (js ''Example.com'') (loaded ?c) = None"
    using c
    by (rule find_matching_set_first_match [of "js ''https''" "js ''Example.com''" ?c,
          THEN conjunct1, THEN iffD2])
  ultimately show ?thesis
    by (simp only: simp_thms)
qed

section \<open>Properties of the popup and of the delete button\<close>

lemma filter_above:
  "k < n \<Longrightarrow> map snd (filter (\<lambda>obj. fst obj \<noteq> k) (enumerate n xs)) = xs"
  by (induction xs arbitrary: n) auto

lemma filter_identity:
  "i < length xs \<Longrightarrow>
     map snd (filter (\<lambda>obj. fst obj \<noteq> n + i) (enumerate n xs)) = take i xs @ drop (Suc i) xs"
proof (induction xs arbitrary: n i)
  case Nil
  then show ?case by simp
next
  case (Cons x xs)
  show ?case
  proof (cases i)
    case 0
    then show ?thesis by (simp add: filter_above)
  next
    case (Suc k)
    with Cons.prems have "k < length xs" by simp
    from Cons.IH [OF this, of "Suc n"] Suc show ?thesis by simp
  qed
qed

lemma deleteHandler_loaded:
  "i < length c \<Longrightarrow> storage_get (deleteHandler (loaded c) (i, s)) = take i c @ drop (Suc i) c"
  using filter_identity [of i c 0]
  by (simp add: deleteHandler_def loaded_def storage_get_def storage_set_def)

lemma loadDomains_Matched:
  "loadDomains st tabUrl ov = Matched bs ds (i, s) \<longleftrightarrow>
     ds = loaded (storage_get st) \<and>
     bs = switchButtons (snd (currentTab tabUrl ov)) s \<and>
     currentDomainSet (fst (currentTab tabUrl ov)) (snd (currentTab tabUrl ov)) (loaded (storage_get st)) = Some (i, s)"
  by (cases "currentTab tabUrl ov")
     (auto simp: loadDomains_def Let_def loaded_length currentDomainSet_def split: option.splits)

lemma matched_delete:
  assumes "loadDomains st tabUrl ov = Matched bs ds (i, s)"
  shows "i < length (storage_get st) \<and> s = storage_get st ! i \<and>
     storage_get (clickDelete (loadDomains st tabUrl ov) st)
       = take i (storage_get st) @ drop (Suc i) (storage_get st)"
proof -
  let ?c = "storage_get st"
  from assms have ds: "ds = loaded ?c"
    and cur: "currentDomainSet (fst (currentTab tabUrl ov)) (snd (currentTab tabUrl ov))
        (loaded ?c) = Some (i, s)"
    by (simp_all add: loadDomains_Matched)
  from cur have i: "i < length ?c" and s: "s = ?c ! i"
    by (simp_all add: currentDomainSet_Some)
  from assms ds have "clickDelete (loadDomains st tabUrl ov) st = deleteHandler (loaded ?c) (i, s)"
    by (simp add: clickDelete_def)
  with i s show ?thesis
    by (simp add: deleteHandler_loaded)
qed

text \<open>
  Claim C3, evaluated on the code. The stored set holds \<open>live\<close> (https, example.com) and
  \<open>plain\<close> (http, example.com); the tab is at \<^verbatim>\<open>https://example.com\<close>. The set is matched,
  and \<open>plain\<close> differs from the tab in its protocol, yet the popup has no switch button at
  all: the test of \<^verbatim>\<open>currentDomainSet.forEach\<close> compares the domain only, where the test of
  \<^verbatim>\<open>set.some\<close> compares protocol and domain.
\<close>

theorem same_domain_other_protocol_gets_no_button:
  "loadDomains (Some [[live, plain]]) (webTab (js ''https'') (js ''example.com'')) None =
     Matched [] (loaded [[live, plain]]) (0, [live, plain]) \<and>
   (protocol plain, domain plain) \<noteq> (js ''https'', js ''example.com'')"
  by (simp add: loadDomains_def currentTab_def webTab_def get_protocol_def get_hostname_def
      storage_get_def loaded_def currentDomainSet_def isCurrent_def switchButtons_def live_def
      plain_def js_def)

text \<open>
  Claim C5. Whenever some variant set of the stored collection matches the current tab,
  a click on "Delete All Domain Variants" in the popup that \<open>loadDomains\<close> rendered writes
  back the collection without the set at the first matching position \<open>i\<close>: the sets before
  \<open>i\<close> and the sets after \<open>i\<close>, each as it was and in the order they had.
\<close>

theorem delete_removes_exactly_matched_set:
  assumes "currentTab tabUrl ov = (p, h)"
    and "\<exists>s \<in> set (storage_get st). \<exists>v \<in> set s. protocol v = p \<and> domain v = h"
  shows "\<exists>i < length (storage_get st).
     (\<exists>v \<in> set (storage_get st ! i). protocol v = p \<and> domain v = h) \<and>
     (\<forall>j < i. \<not> (\<exists>v \<in> set (storage_get st ! j). protocol v = p \<and> domain v = h)) \<and>
     storage_get (clickDelete (loadDomains st tabUrl ov) st)
       = take i (storage_get st) @ drop (Suc i) (storage_get st)"
proof -
  let ?c = "storage_get st"
  from assms(2) have "currentDomainSet p h (loaded ?c) \<noteq> None"
    by (simp add: currentDomainSet_None)
  then obtain i s where cur: "currentDomainSet p h (loaded ?c) = Some (i, s)"
    by (cases "currentDomainSet p h (loaded ?c)") auto
  then have i: "i < length ?c" "s = ?c ! i" "list_ex (isCurrent p h) s"
    "\<forall>j < i. \<not> list_ex (isCurrent p h) (?c ! j)"
    using currentDomainSet_Some [of p h ?c i s] by auto
  from cur assms(1) have "loadDomains st tabUrl ov = Matched (switchButtons h s) (loaded ?c) (i, s)"
    by (simp add: loadDomains_Matched)
  from matched_delete [OF this] i show ?thesis
    by (auto simp: some_iff)
qed

theorem delete_removes_exactly_matched_set_witness:
  "storage_get (clickDelete
      (loadDomains (Some [[plain], [live, test], [test]]) (webTab (js ''https'') (js ''example.com'')) None)
      (Some [[plain], [live, test], [test]])) = [[plain], [test]]"
proof -
  let ?st = "Some [[plain], [live, test], [test]]"
  let ?tab = "webTab (js ''https'') (js ''example.com'')"
  have tab: "currentTab ?tab None = (js ''https'', js ''example.com'')"
    by (simp add: currentTab_def webTab_def get_protocol_def get_hostname_def js_def)
  have c: "storage_get ?st = [[plain], [live, test], [test]]"
    by (simp add: storage_get_def)
  have ex: "\<exists>s \<in> set (storage_get ?st). \<exists>v \<in> set s.
      protocol v = js ''https'' \<and> domain v = js ''example.com''"
    unfolding c by (simp add: live_def)
  from delete_removes_exactly_matched_set [OF tab ex] obtain i
    where "i < length (storage_get ?st)"
      and "\<exists>v \<in> set (storage_get ?st ! i). protocol v = js ''https'' \<and> domain v = js ''example.com''"
      and "storage_get (clickDelete (loadDomains ?st ?tab None) ?st)
        = take i (storage_get ?st) @ drop (Suc i) (storage_get ?st)"
    by blast
  then have i: "i < 3"
    "\<exists>v \<in> set ([[plain], [live, test], [test]] ! i).
        protocol v = js ''https'' \<and> domain v = js ''example.com''"
    "storage_get (clickDelete (loadDomains ?st ?tab None) ?st)
       = take i [[plain], [live, test], [test]] @ drop (Suc i) [[plain], [live, test], [test]]"
    unfolding c by simp_all
  from i(1) consider "i = 0" | "i = 1" | "i = 2" by linarith
  then have "i = 1"
  proof cases
    case 1
    with i(2) show ?thesis by (simp add: plain_def js_def)
  next
    case 2
    then show ?thesis .
  next
    case 3
    with i(2) show ?thesis by (simp add: test_def js_def numeral_2_eq_2)
  qed
  with i(3) show ?thesis by simp
qed

text \<open>
  Claim C10. When a later set of the stored collection is equal by value to the set the
  first-match scan selected, the delete button removes the selected instance only (the
  filter compares object identities): the written collection is one set shorter, it is
  the old one without position \<open>i\<close>, and the duplicate that stood at position \<open>j\<close> is still
  there, now at \<open>j - 1\<close>.
\<close>

theorem delete_keeps_later_duplicates:
  assumes "loadDomains st tabUrl ov = Matched bs ds (i, s)"
    and "i < j" and "j < length (storage_get st)" and "storage_get st ! j = s"
  shows "length (storage_get (clickDelete (loadDomains st tabUrl ov) st)) = length (storage_get st) - 1 \<and>
     storage_get (clickDelete (loadDomains st tabUrl ov) st) ! (j - 1) = s \<and>
     storage_get (clickDelete (loadDomains st tabUrl ov) st)
       = take i (storage_get st) @ drop (Suc i) (storage_get st)"
proof -
  let ?c = "storage_get st"
  let ?r = "storage_get (clickDelete (loadDomains st tabUrl ov) st)"
  from matched_delete [OF assms(1)] have i: "i < length ?c" and r: "?r = take i ?c @ drop (Suc i) ?c"
    by simp_all
  from i have len: "length ?r = length ?c - 1"
    unfolding r by simp
  have "(take i ?c @ drop (Suc i) ?c) ! (j - 1) = ?c ! j"
  proof -
    from i have "length (take i ?c) = i" by simp
    moreover from assms(2) have "\<not> j - 1 < i" by arith
    ultimately have "(take i ?c @ drop (Suc i) ?c) ! (j - 1) = drop (Suc i) ?c ! (j - 1 - i)"
      by (simp add: nth_append)
    also from assms(2,3) have "\<dots> = ?c ! (Suc i + (j - 1 - i))"
      by (intro nth_drop) simp
    also from assms(2) have "Suc i + (j - 1 - i) = j" by arith
    finally show ?thesis .
  qed
  with assms(4) r len show ?thesis by simp
qed

theorem delete_keeps_later_duplicates_witness:
  "storage_get (clickDelete
      (loadDomains (Some [[live, test], [plain], [live, test]]) (webTab (js ''https'') (js ''example.com'')) None)
      (Some [[live, test], [plain], [live, test]])) = [[plain], [live, test]]"
proof -
  let ?st = "Some [[live, test], [plain], [live, test]]"
  let ?tab = "webTab (js ''https'') (js ''example.com'')"
  have m: "loadDomains ?st ?tab None
      = Matched [test] (loaded [[live, test], [plain], [live, test]]) (0, [live, test])"
    by (simp add: loadDomains_def currentTab_def webTab_def get_protocol_def get_hostname_def
        storage_get_def loaded_def currentDomainSet_def isCurrent_def switchButtons_def live_def
        test_def js_def)
  have "(0::nat) < 2" "2 < length (storage_get ?st)" "storage_get ?st ! 2 = [live, test]"
    by (simp_all add: storage_get_def)
  from delete_keeps_later_duplicates [OF m this] show ?thesis
    by (simp add: storage_get_def)
qed

section \<open>Properties of the add flow\<close>

lemma last_dropWhile_keep: "dropWhile P xs \<noteq> [] \<Longrightarrow> last (dropWhile P xs) = last xs"
  by (induction xs) (auto split: if_splits)

lemma trim_noOuterWhiteSpace: "noOuterWhiteSpace (trim s)"
proof (cases "trim s = []")
  case True
  then show ?thesis by (simp add: noOuterWhiteSpace_def)
next
  case False
  let ?a = "dropWhile isWhiteSpace s"
  let ?b = "dropWhile isWhiteSpace (rev ?a)"
  from False have b: "?b \<noteq> []" by (simp add: trim_def)
  have a: "?a \<noteq> []"
  proof
    assume "?a = []"
    then have "?b = []" by (simp only: rev.simps dropWhile.simps)
    with b show False by (simp only:)
  qed
  from b have "\<not> isWhiteSpace (hd ?b)" by (rule hd_dropWhile)
  then have l: "\<not> isWhiteSpace (last (trim s))"
    using b by (simp add: trim_def last_rev)
  from b have "last ?b = last (rev ?a)" by (rule last_dropWhile_keep)
  also have "\<dots> = hd ?a" using a by (simp add: last_rev)
  finally have "hd (trim s) = hd ?a" using b by (simp add: trim_def hd_rev)
  moreover from a have "\<not> isWhiteSpace (hd ?a)" by (rule hd_dropWhile)
  ultimately show ?thesis using l by (simp add: noOuterWhiteSpace_def)
qed

lemma dropWhile_keep: "xs \<noteq> [] \<Longrightarrow> \<not> P (hd xs) \<Longrightarrow> dropWhile P xs = xs"
  by (cases xs) simp_all

lemma trim_fixed: "noOuterWhiteSpace s \<Longrightarrow> trim s = s"
proof (cases "s = []")
  case True
  then show ?thesis by (simp add: trim_def)
next
  case False
  assume "noOuterWhiteSpace s"
  with False have h: "\<not> isWhiteSpace (hd s)" and l: "\<not> isWhiteSpace (last s)"
    by (simp_all add: noOuterWhiteSpace_def)
  from False h have a: "dropWhile isWhiteSpace s = s"
    by (rule dropWhile_keep)
  from False l have "dropWhile isWhiteSpace (rev s) = rev s"
    by (intro dropWhile_keep) (simp_all add: hd_rev)
  with a show ?thesis by (simp add: trim_def)
qed

lemma trim_idem: "trim (trim s) = trim s"
  by (rule trim_fixed) (rule trim_noOuterWhiteSpace)

lemma validateGroup_trimmed: "validateGroup (trimmedGroup g) i = validateGroup g i"
  by (simp add: validateGroup_def trimmedGroup_def trim_idem)

lemma thisVariantSet_fields:
  "v \<in> set (thisVariantSet gs) \<Longrightarrow>
     noOuterWhiteSpace (name v) \<and> noOuterWhiteSpace (protocol v) \<and> noOuterWhiteSpace (domain v)"
  by (auto simp: thisVariantSet_def trim_noOuterWhiteSpace)

lemma add_storage:
  "storage_get (snd (addNewDomainVariantGroup gs st)) = storage_get st @ [thisVariantSet gs]"
  by (simp add: addNewDomainVariantGroup_def pushVariantSet_def storage_get_def storage_set_def)

text \<open>
  Claim C2, evaluated on the code. The form holds one group with the protocol \<^verbatim>\<open>ftp\<close>; the
  key was never written. The alert for the protocol is raised, and the set with the
  \<^verbatim>\<open>ftp\<close> variant is stored all the same: the \<^verbatim>\<open>return\<close> after the alert leaves the callback of
  \<^verbatim>\<open>forEach\<close>, not \<^verbatim>\<open>addNewDomainVariantGroup\<close>, which goes on to build and store the set.
\<close>

theorem invalid_group_is_persisted:
  "addNewDomainVariantGroup
     [\<lparr>nameInput_value = js ''Files'', protocolInput_value = js ''ftp'',
       domainInput_value = js ''example.com''\<rparr>] None =
   ([InvalidProtocol 1],
    Some [[\<lparr>name = js ''Files'', protocol = js ''ftp'', domain = js ''example.com''\<rparr>]])"
  by (simp add: addNewDomainVariantGroup_def validationAlerts_def validateGroup_def
      thisVariantSet_def pushVariantSet_def storage_get_def storage_set_def trim_def
      isWhiteSpace_def js_def List.map_filter_simps)

text \<open>
  Claim C4. For every stored collection and every new variant set (so for every valid one
  with at least one variant), storing the set and then loading yields the old collection
  with the new set appended as it is: same variants, same order, same field values. The
  set the add flow stores is the one it collected from the form, \<open>thisVariantSet\<close>.
\<close>

theorem add_then_load_round_trip:
  "storage_get (pushVariantSet newSet st) = storage_get st @ [newSet] \<and>
   storage_get (snd (addNewDomainVariantGroup variantGroups st))
     = storage_get st @ [thisVariantSet variantGroups]"
  by (simp add: addNewDomainVariantGroup_def pushVariantSet_def storage_get_def storage_set_def)

text \<open>
  Claim C8. The set the add flow appends to the stored collection holds, for every group
  of the form and in the form's order, the trimmed text of the three inputs; no name,
  protocol or domain of it starts or ends with white space; and validation reads the
  trimmed text too: it gives the same result on a group and on the group of its trimmed
  inputs, and so does the construction of the stored set.
\<close>

theorem persisted_fields_are_trimmed:
  "storage_get (snd (addNewDomainVariantGroup variantGroups st))
     = storage_get st @ [thisVariantSet variantGroups] \<and>
   map name (thisVariantSet variantGroups) = map (\<lambda>g. trim (nameInput_value g)) variantGroups \<and>
   map protocol (thisVariantSet variantGroups) = map (\<lambda>g. trim (protocolInput_value g)) variantGroups \<and>
   map domain (thisVariantSet variantGroups) = map (\<lambda>g. trim (domainInput_value g)) variantGroups \<and>
   (\<forall>v \<in> set (thisVariantSet variantGroups).
      noOuterWhiteSpace (name v) \<and> noOuterWhiteSpace (protocol v) \<and> noOuterWhiteSpace (domain v)) \<and>
   validateGroup (trimmedGroup g) index = validateGroup g index \<and>
   thisVariantSet (map trimmedGroup variantGroups) = thisVariantSet variantGroups"
proof -
  have "thisVariantSet (map trimmedGroup variantGroups) = thisVariantSet variantGroups"
    by (simp add: thisVariantSet_def trimmedGroup_def trim_idem)
  moreover have "map name (thisVariantSet variantGroups) = map (\<lambda>g. trim (nameInput_value g)) variantGroups"
    "map protocol (thisVariantSet variantGroups) = map (\<lambda>g. trim (protocolInput_value g)) variantGroups"
    "map domain (thisVariantSet variantGroups) = map (\<lambda>g. trim (domainInput_value g)) variantGroups"
    by (simp_all add: thisVariantSet_def comp_def)
  ultimately show ?thesis
    using thisVariantSet_fields [of _ variantGroups] add_storage [of variantGroups st]
      validateGroup_trimmed [of g index]
    by blast
qed

theorem persisted_fields_are_trimmed_witness:
  "storage_get (snd (addNewDomainVariantGroup
      [\<lparr>nameInput_value = js ''  Live '', protocolInput_value = js '' https'',
        domainInput_value = js ''example.com  ''\<rparr>] None)) = [[live]] \<and>
   noOuterWhiteSpace (name live) \<and> noOuterWhiteSpace (protocol live) \<and>
   noOuterWhiteSpace (domain live)"
proof -
  let ?g = "\<lparr>nameInput_value = js ''  Live '', protocolInput_value = js '' https'',
    domainInput_value = js ''example.com  ''\<rparr>"
  have t: "thisVariantSet [?g] = [live]"
    by (simp add: thisVariantSet_def live_def trim_def isWhiteSpace_def js_def)
  note th = persisted_fields_are_trimmed [of "[?g]" None ?g 0, unfolded t]
  from th have a: "storage_get (snd (addNewDomainVariantGroup [?g] None)) = storage_get None @ [[live]]"
    by blast
  from th have b: "\<forall>v \<in> set [live].
      noOuterWhiteSpace (name v) \<and> noOuterWhiteSpace (protocol v) \<and> noOuterWhiteSpace (domain v)"
    by blast
  have "storage_get None = []"
    by (simp add: storage_get_def)
  with a b show ?thesis by simp
qed

section \<open>Properties of the validation\<close>

lemma includes_str_iff: "includes_str s pat \<longleftrightarrow> (\<exists>a b. s = a @ pat @ b)"
proof (induction s)
  case Nil
  then show ?case by auto
next
  case (Cons c cs)
  have "(\<exists>a b. c # cs = a @ pat @ b) \<longleftrightarrow> prefix pat (c # cs) \<or> (\<exists>a b. cs = a @ pat @ b)"
  proof
    assume "\<exists>a b. c # cs = a @ pat @ b"
    then obtain a b where ab: "c # cs = a @ pat @ b" by blast
    show "prefix pat (c # cs) \<or> (\<exists>a b. cs = a @ pat @ b)"
    proof (cases a)
      case Nil
      with ab show ?thesis by (auto simp: prefix_def)
    next
      case (Cons x xs)
      with ab have "cs = xs @ pat @ b" by simp
      then show ?thesis by blast
    qed
  next
    assume "prefix pat (c # cs) \<or> (\<exists>a b. cs = a @ pat @ b)"
    then show "\<exists>a b. c # cs = a @ pat @ b"
    proof
      assume "prefix pat (c # cs)"
      then obtain b where "c # cs = pat @ b" by (auto simp: prefix_def)
      then have "c # cs = [] @ pat @ b" by simp
      then show ?thesis by blast
    next
      assume "\<exists>a b. cs = a @ pat @ b"
      then obtain a b where "cs = a @ pat @ b" by blast
      then have "c # cs = (c # a) @ pat @ b" by simp
      then show ?thesis by blast
    qed
  qed
  with Cons.IH show ?case by simp
qed

lemma alerts_from:
  "List.map_filter (\<lambda>(index, g). validateGroup g index) (enumerate n gs) = [] \<longleftrightarrow>
     (\<forall>i < length gs. validateGroup (gs ! i) (n + i) = None)"
proof (induction gs arbitrary: n)
  case Nil
  then show ?case by (simp add: List.map_filter_simps)
next
  case (Cons g gs)
  have "(\<forall>i < length (g # gs). validateGroup ((g # gs) ! i) (n + i) = None) \<longleftrightarrow>
      validateGroup g n = None \<and> (\<forall>i < length gs. validateGroup (gs ! i) (Suc n + i) = None)"
    by (auto simp: less_Suc_eq_0_disj)
  with Cons.IH [of "Suc n"] show ?case
    by (simp add: List.map_filter_simps split: option.splits)
qed

lemma first_alert_from:
  "i < length gs \<Longrightarrow> \<forall>j < i. validateGroup (gs ! j) (n + j) = None \<Longrightarrow>
   validateGroup (gs ! i) (n + i) = Some a \<Longrightarrow>
     hd (List.map_filter (\<lambda>(index, g). validateGroup g index) (enumerate n gs)) = a"
proof (induction gs arbitrary: n i)
  case Nil
  then show ?case by simp
next
  case (Cons g gs)
  show ?case
  proof (cases i)
    case 0
    with Cons.prems show ?thesis by (simp add: List.map_filter_simps)
  next
    case (Suc k)
    with Cons.prems have g: "validateGroup g n = None" by auto
    from Suc Cons.prems have "k < length gs" "\<forall>j < k. validateGroup (gs ! j) (Suc n + j) = None"
      "validateGroup (gs ! k) (Suc n + k) = Some a"
      by auto
    from Cons.IH [OF this] g show ?thesis by (simp add: List.map_filter_simps)
  qed
qed

lemma validationAlerts_empty:
  "validationAlerts gs = [] \<longleftrightarrow> (\<forall>i < length gs. validateGroup (gs ! i) i = None)"
  using alerts_from [of 0 gs] by (simp add: validationAlerts_def)

lemma validationAlerts_first:
  "i < length gs \<Longrightarrow> \<forall>j < i. validateGroup (gs ! j) j = None \<Longrightarrow>
   validateGroup (gs ! i) i = Some a \<Longrightarrow> hd (validationAlerts gs) = a"
  using first_alert_from [of i gs 0 a] by (simp add: validationAlerts_def)

text \<open>
  Claim C6, against the code: a group with a name of 31 characters and a valid protocol and
  domain raises no alert, and its variant is stored with the name at its full length.
\<close>

theorem long_name_is_not_rejected:
  "length (nameInput_value longNameGroup) = 31 \<and>
   addNewDomainVariantGroup [longNameGroup] None =
     ([], Some [[\<lparr>name = nameInput_value longNameGroup, protocol = js ''https'',
                   domain = js ''example.com''\<rparr>]])"
  by (simp add: addNewDomainVariantGroup_def validationAlerts_def validateGroup_def
      thisVariantSet_def pushVariantSet_def storage_get_def storage_set_def trim_def
      isWhiteSpace_def js_def longNameGroup_def List.map_filter_simps)

text \<open>
  Claim C6, amended. Each candidate is checked on the trimmed text of its inputs, in the
  order: protocol is \<^verbatim>\<open>http\<close> or \<^verbatim>\<open>https\<close>, domain is not empty, domain does not contain
  \<^verbatim>\<open>://\<close>, domain does not contain \<^verbatim>\<open>/\<close>, name is not empty. The first check that fails
  decides the alert, which carries the candidate's position counted from 1; a candidate
  raises no alert exactly when it passes all five. The length of the name is not among
  the checks. For a form, no alert at all is raised exactly when every candidate passes,
  and otherwise the first alert raised is that of the first failing candidate.
\<close>

theorem validation_checks_in_order:
  fixes grp :: variantGroup and index :: nat and variantGroups :: "variantGroup list"
  defines "p \<equiv> trim (protocolInput_value grp)"
    and "d \<equiv> trim (domainInput_value grp)"
    and "n \<equiv> trim (nameInput_value grp)"
  shows "(validateGroup grp index = Some (InvalidProtocol k) \<longleftrightarrow>
            k = index + 1 \<and> p \<noteq> js ''http'' \<and> p \<noteq> js ''https'') \<and>
         (validateGroup grp index = Some (InvalidDomain k) \<longleftrightarrow>
            k = index + 1 \<and> (p = js ''http'' \<or> p = js ''https'') \<and> d = []) \<and>
         (validateGroup grp index = Some (DomainWithProtocol k) \<longleftrightarrow>
            k = index + 1 \<and> (p = js ''http'' \<or> p = js ''https'') \<and> d \<noteq> [] \<and>
            (\<exists>a b. d = a @ js ''://'' @ b)) \<and>
         (validateGroup grp index = Some (DomainWithPath k) \<longleftrightarrow>
            k = index + 1 \<and> (p = js ''http'' \<or> p = js ''https'') \<and> d \<noteq> [] \<and>
            \<not> (\<exists>a b. d = a @ js ''://'' @ b) \<and> (\<exists>a b. d = a @ js ''/'' @ b)) \<and>
         (validateGroup grp index = Some (InvalidName k) \<longleftrightarrow>
            k = index + 1 \<and> (p = js ''http'' \<or> p = js ''https'') \<and> d \<noteq> [] \<and>
            \<not> (\<exists>a b. d = a @ js ''/'' @ b) \<and> n = []) \<and>
         (validateGroup grp index = None \<longleftrightarrow>
            (p = js ''http'' \<or> p = js ''https'') \<and> d \<noteq> [] \<and>
            \<not> (\<exists>a b. d = a @ js ''/'' @ b) \<and> n \<noteq> []) \<and>
         (validationAlerts variantGroups = [] \<longleftrightarrow>
            (\<forall>i < length variantGroups. validateGroup (variantGroups ! i) i = None)) \<and>
         (\<forall>i a. i < length variantGroups \<and>
            (\<forall>j < i. validateGroup (variantGroups ! j) j = None) \<and>
            validateGroup (variantGroups ! i) i = Some a
              \<longrightarrow> hd (validationAlerts variantGroups) = a)"
proof -
  have sub: "(\<exists>a b. d = a @ js ''://'' @ b) \<Longrightarrow> (\<exists>a b. d = a @ js ''/'' @ b)"
  proof -
    assume "\<exists>a b. d = a @ js ''://'' @ b"
    then obtain a b where "d = a @ js ''://'' @ b" by blast
    then have "d = (a @ js '':'') @ js ''/'' @ (js ''/'' @ b)" by (simp add: js_def)
    then show ?thesis by blast
  qed
  have one: "(validateGroup grp index = Some (InvalidProtocol k) \<longleftrightarrow>
            k = index + 1 \<and> p \<noteq> js ''http'' \<and> p \<noteq> js ''https'') \<and>
         (validateGroup grp index = Some (InvalidDomain k) \<longleftrightarrow>
            k = index + 1 \<and> (p = js ''http'' \<or> p = js ''https'') \<and> d = []) \<and>
         (validateGroup grp index = Some (DomainWithProtocol k) \<longleftrightarrow>
            k = index + 1 \<and> (p = js ''http'' \<or> p = js ''https'') \<and> d \<noteq> [] \<and>
            (\<exists>a b. d = a @ js ''://'' @ b)) \<and>
         (validateGroup grp index = Some (DomainWithPath k) \<longleftrightarrow>
            k = index + 1 \<and> (p = js ''http'' \<or> p = js ''https'') \<and> d \<noteq> [] \<and>
            \<not> (\<exists>a b. d = a @ js ''://'' @ b) \<and> (\<exists>a b. d = a @ js ''/'' @ b)) \<and>
         (validateGroup grp index = Some (InvalidName k) \<longleftrightarrow>
            k = index + 1 \<and> (p = js ''http'' \<or> p = js ''https'') \<and> d \<noteq> [] \<and>
            \<not> (\<exists>a b. d = a @ js ''/'' @ b) \<and> n = []) \<and>
         (validateGroup grp index = None \<longleftrightarrow>
            (p = js ''http'' \<or> p = js ''https'') \<and> d \<noteq> [] \<and>
            \<not> (\<exists>a b. d = a @ js ''/'' @ b) \<and> n \<noteq> [])"
    unfolding validateGroup_def Let_def p_def [symmetric] d_def [symmetric] n_def [symmetric]
      includes_str_iff
    using sub by auto
  have many: "\<forall>i a. i < length variantGroups \<and>
      (\<forall>j < i. validateGroup (variantGroups ! j) j = None) \<and>
      validateGroup (variantGroups ! i) i = Some a
        \<longrightarrow> hd (validationAlerts variantGroups) = a"
    using validationAlerts_first [of _ variantGroups] by blast
  from one many validationAlerts_empty [of variantGroups] show ?thesis
    by (simp only: simp_thms)
qed

theorem validation_checks_in_order_witness:
  "validateGroup \<lparr>nameInput_value = js ''Files'', protocolInput_value = js ''ftp'',
      domainInput_value = js ''example.com''\<rparr> 0 = Some (InvalidProtocol 1) \<and>
   validateGroup \<lparr>nameInput_value = js ''Live'', protocolInput_value = js ''https'',
      domainInput_value = js ''http://example.com''\<rparr> 1 = Some (DomainWithProtocol 2) \<and>
   validateGroup \<lparr>nameInput_value = js ''Live'', protocolInput_value = js ''https'',
      domainInput_value = js ''example.com/path''\<rparr> 2 = Some (DomainWithPath 3) \<and>
   validateGroup \<lparr>nameInput_value = js '' '', protocolInput_value = js ''https'',
      domainInput_value = js ''example.com''\<rparr> 3 = Some (InvalidName 4) \<and>
   hd (validationAlerts
     [\<lparr>nameInput_value = js ''Live'', protocolInput_value = js ''https'',
        domainInput_value = js ''example.com''\<rparr>,
      \<lparr>nameInput_value = js ''Files'', protocolInput_value = js ''ftp'',
        domainInput_value = js ''example.com''\<rparr>]) = InvalidProtocol 2"
proof -
  let ?ok = "\<lparr>nameInput_value = js ''Live'', protocolInput_value = js ''https'',
      domainInput_value = js ''example.com''\<rparr>"
  let ?g0 = "\<lparr>nameInput_value = js ''Files'', protocolInput_value = js ''ftp'',
      domainInput_value = js ''example.com''\<rparr>"
  let ?g1 = "\<lparr>nameInput_value = js ''Live'', protocolInput_value = js ''https'',
      domainInput_value = js ''http://example.com''\<rparr>"
  let ?g2 = "\<lparr>nameInput_value = js ''Live'', protocolInput_value = js ''https'',
      domainInput_value = js ''example.com/path''\<rparr>"
  let ?g3 = "\<lparr>nameInput_value = js '' '', protocolInput_value = js ''https'',
      domainInput_value = js ''example.com''\<rparr>"
  have t: "trim (js ''ftp'') = js ''ftp''" "trim (js ''https'') = js ''https''"
    "trim (js ''Live'') = js ''Live''" "trim (js '' '') = []"
    "trim (js ''example.com'') = js ''example.com''"
    "trim (js ''http://example.com'') = js ''http://example.com''"
    "trim (js ''example.com/path'') = js ''example.com/path''"
    by (simp_all add: trim_def isWhiteSpace_def js_def)
  have i: "includes_str (js ''http://example.com'') (js ''://'')"
    "\<not> includes_str (js ''example.com/path'') (js ''://'')"
    "includes_str (js ''example.com/path'') (js ''/'')"
    "\<not> includes_str (js ''example.com'') (js ''/'')"
    by (simp_all add: js_def)
  have n: "js ''ftp'' \<noteq> js ''http''" "js ''ftp'' \<noteq> js ''https''" "js ''example.com'' \<noteq> []"
    "js ''http://example.com'' \<noteq> []" "js ''example.com/path'' \<noteq> []"
    by (simp_all add: js_def)
  from validation_checks_in_order [where variantGroups = "[]" and grp = ?g0 and index = 0 and k = 1,
      folded includes_str_iff, THEN conjunct1] t n
  have a0: "validateGroup ?g0 0 = Some (InvalidProtocol 1)"
    by simp
  from validation_checks_in_order [where variantGroups = "[]" and grp = ?g1 and index = 1 and k = 2,
      folded includes_str_iff, THEN conjunct2, THEN conjunct2, THEN conjunct1] t n i
  have a1: "validateGroup ?g1 1 = Some (DomainWithProtocol 2)"
    by simp
  from validation_checks_in_order [where variantGroups = "[]" and grp = ?g2 and index = 2 and k = 3,
      folded includes_str_iff, THEN conjunct2, THEN conjunct2, THEN conjunct2, THEN conjunct1] t n i
  have a2: "validateGroup ?g2 2 = Some (DomainWithPath 3)"
    by simp
  from validation_checks_in_order [where variantGroups = "[]" and grp = ?g3 and index = 3 and k = 4,
      folded includes_str_iff, THEN conjunct2, THEN conjunct2, THEN conjunct2, THEN conjunct2, THEN conjunct1] t n i
  have a3: "validateGroup ?g3 3 = Some (InvalidName 4)"
    by simp
  from validation_checks_in_order [where variantGroups = "[]" and grp = ?ok and index = 0 and k = 0,
      folded includes_str_iff, THEN conjunct2, THEN conjunct2, THEN conjunct2, THEN conjunct2, THEN conjunct2, THEN conjunct1] t n i
  have ok: "validateGroup ?ok 0 = None"
    by (simp add: js_def)
  from validation_checks_in_order [where variantGroups = "[]" and grp = ?g0 and index = 1 and k = 2,
      folded includes_str_iff, THEN conjunct1] t n
  have b1: "validateGroup ?g0 1 = Some (InvalidProtocol 2)"
    by simp
  note m = validation_checks_in_order [where variantGroups = "[?ok, ?g0]", THEN conjunct2,
      THEN conjunct2, THEN conjunct2, THEN conjunct2, THEN conjunct2, THEN conjunct2,
      THEN conjunct2, rule_format, where i = 1 and a = "InvalidProtocol 2"]
  from ok b1 have a4: "hd (validationAlerts [?ok, ?g0]) = InvalidProtocol 2"
    by (intro m) simp
  from a0 a1 a2 a3 a4 show ?thesis by (simp only: simp_thms)
qed

section \<open>Properties of the switch\<close>

lemma overrideScheme_cases:
  "overrideScheme u b = u \<or>
   overrideScheme u b = u\<lparr>scheme := b, port := (if port u = defaultPort b then None else port u)\<rparr>"
  by (simp add: overrideScheme_def)

lemma schemeOverride_cases:
  "schemeOverride u inp = u \<or>
   (\<exists>b. schemeOverride u inp
      = u\<lparr>scheme := b, port := (if port u = defaultPort b then None else port u)\<rparr>)"
proof -
  have "schemeOverride u inp = u \<or> (\<exists>b. schemeOverride u inp = overrideScheme u b)"
    by (auto simp: schemeOverride_def simp del: takeWhile.simps dropWhile.simps split: list.splits)
  then show ?thesis
    using overrideScheme_cases [of u] by metis
qed

lemma schemeOverride_frame:
  "username (schemeOverride u inp) = username u \<and> password (schemeOverride u inp) = password u \<and>
   host (schemeOverride u inp) = host u \<and> path (schemeOverride u inp) = path u \<and>
   query (schemeOverride u inp) = query u \<and> fragment (schemeOverride u inp) = fragment u"
  using schemeOverride_cases [of u inp] by auto

lemma schemeOverride_port:
  "port (schemeOverride u inp) = port u \<or>
   (port (schemeOverride u inp) = None \<and> port u = defaultPort (scheme (schemeOverride u inp)))"
  using schemeOverride_cases [of u inp] by (auto split: if_splits)

lemma set_protocol_web:
  assumes "scheme u = js ''http'' \<or> scheme u = js ''https''"
    and "p = js ''http'' \<or> p = js ''https''"
  shows "scheme (set_protocol u (p @ js '':'')) = p"
proof -
  have i: "filter (\<lambda>c. \<not> isTabOrNewline c) ((p @ js '':'') @ js '':'') = p @ js ''::''"
    using assms(2) by (auto simp: js_def isTabOrNewline_def)
  have t: "takeWhile isSchemeChar (p @ js ''::'') = p"
    and d: "dropWhile isSchemeChar (p @ js ''::'') = js ''::''"
    and l: "map asciiLower p = p"
    and a: "\<exists>c cs. p @ js ''::'' = c # cs \<and> isAsciiAlpha c"
    using assms(2) by (auto simp: js_def isSchemeChar_def isAsciiAlpha_def asciiLower_def)
  have s: "isSpecial (scheme u)" "isSpecial p" "p \<noteq> js ''file''" "scheme u \<noteq> js ''file''"
    using assms by (auto simp: isSpecial_def js_def)
  from a obtain c cs where c: "p @ js ''::'' = c # cs" "isAsciiAlpha c" by blast
  have "schemeOverride u (p @ js ''::'') = overrideScheme u p"
    unfolding schemeOverride_def d t l c(1) [symmetric]
    using c by (simp add: js_def d t l)
  then have "set_protocol u (p @ js '':'') = overrideScheme u p"
    unfolding set_protocol_def i .
  with s show ?thesis
    by (simp add: overrideScheme_def)
qed

lemma hostnameOverride_frame:
  "scheme (hostnameOverride hp u inp) = scheme u \<and> username (hostnameOverride hp u inp) = username u \<and>
   password (hostnameOverride hp u inp) = password u \<and> port (hostnameOverride hp u inp) = port u \<and>
   path (hostnameOverride hp u inp) = path u \<and> query (hostnameOverride hp u inp) = query u \<and>
   fragment (hostnameOverride hp u inp) = fragment u"
  by (simp add: hostnameOverride_def Let_def split: option.splits)

lemma set_hostname_frame:
  "scheme (set_hostname hp u v) = scheme u \<and> username (set_hostname hp u v) = username u \<and>
   password (set_hostname hp u v) = password u \<and> port (set_hostname hp u v) = port u \<and>
   path (set_hostname hp u v) = path u \<and> query (set_hostname hp u v) = query u \<and>
   fragment (set_hostname hp u v) = fragment u"
  by (simp add: set_hostname_def hostnameOverride_frame split: urlPath.splits)

lemma set_protocol_frame:
  "username (set_protocol u v) = username u \<and> password (set_protocol u v) = password u \<and>
   host (set_protocol u v) = host u \<and> path (set_protocol u v) = path u \<and>
   query (set_protocol u v) = query u \<and> fragment (set_protocol u v) = fragment u"
  by (simp add: set_protocol_def schemeOverride_frame)

lemma hostnameBuffer_plain:
  "\<forall>c \<in> set d. c \<noteq> 0x3A \<and> c \<noteq> 0x2F \<and> c \<noteq> 0x3F \<and> c \<noteq> 0x23 \<and> c \<noteq> 0x5C \<Longrightarrow>
     hostnameBuffer special inside buffer d = Some (buffer @ d)"
  by (induction d arbitrary: inside buffer) simp_all

lemma set_hostname_web:
  assumes "scheme u = js ''http'' \<or> scheme u = js ''https''"
    and "path u = PathSegments ps"
    and "d \<noteq> []"
    and "\<forall>c \<in> set d. \<not> isTabOrNewline c \<and> c \<noteq> 0x3A \<and> c \<noteq> 0x2F \<and> c \<noteq> 0x3F \<and> c \<noteq> 0x23 \<and> c \<noteq> 0x5C"
    and "hp d False = Some h"
  shows "host (set_hostname hp u d) = Some h"
proof -
  from assms(4) have f: "filter (\<lambda>c. \<not> isTabOrNewline c) d = d"
    by (simp add: filter_id_conv)
  from assms(4) have b: "hostnameBuffer True False [] d = Some ([] @ d)"
    by (intro hostnameBuffer_plain) simp
  from assms(1) have s: "isSpecial (scheme u)" "scheme u \<noteq> js ''file''"
    by (auto simp: isSpecial_def js_def)
  from f b s assms(2,3,5) show ?thesis
    by (simp add: set_hostname_def hostnameOverride_def)
qed

text \<open>
  Claim C7. For every tab URL and every target protocol and domain, the URL the switch
  sends the tab to has the path, the query and the fragment of the tab's URL, unchanged.
  For a tab at an \<^verbatim>\<open>http\<close> or \<^verbatim>\<open>https\<close> URL and a target protocol \<^verbatim>\<open>http\<close> or \<^verbatim>\<open>https\<close>, the scheme
  becomes the target protocol; and when the target domain is a plain host name (not
  empty, free of ASCII tab and newline and of \<^verbatim>\<open>:\<close>, \<^verbatim>\<open>/\<close>, \<^verbatim>\<open>?\<close>, \<^verbatim>\<open>#\<close> and backslash) that the host
  parser accepts, the host becomes the parsed target domain.
\<close>

theorem switchDomain_rewrites_scheme_and_hostname_only:
  "path (fst (switchDomain hp p d u st)) = path u \<and>
   query (fst (switchDomain hp p d u st)) = query u \<and>
   fragment (fst (switchDomain hp p d u st)) = fragment u \<and>
   ((scheme u = js ''http'' \<or> scheme u = js ''https'') \<and> (p = js ''http'' \<or> p = js ''https'')
      \<longrightarrow> scheme (fst (switchDomain hp p d u st)) = p) \<and>
   ((scheme u = js ''http'' \<or> scheme u = js ''https'') \<and> (p = js ''http'' \<or> p = js ''https'') \<and>
    (\<exists>ps. path u = PathSegments ps) \<and> d \<noteq> [] \<and>
    (\<forall>c \<in> set d. \<not> isTabOrNewline c \<and> c \<noteq> 0x3A \<and> c \<noteq> 0x2F \<and> c \<noteq> 0x3F \<and> c \<noteq> 0x23 \<and> c \<noteq> 0x5C) \<and>
    hp d False = Some h
      \<longrightarrow> host (fst (switchDomain hp p d u st)) = Some h)"
proof -
  let ?u1 = "set_protocol u (p @ js '':'')"
  have r: "fst (switchDomain hp p d u st) = set_hostname hp ?u1 d"
    by (simp add: switchDomain_def switchedUrl_def)
  have frame: "path (fst (switchDomain hp p d u st)) = path u \<and>
      query (fst (switchDomain hp p d u st)) = query u \<and>
      fragment (fst (switchDomain hp p d u st)) = fragment u"
    unfolding r by (simp add: set_hostname_frame set_protocol_frame)
  have sch: "scheme (fst (switchDomain hp p d u st)) = p"
    if "scheme u = js ''http'' \<or> scheme u = js ''https''" "p = js ''http'' \<or> p = js ''https''"
    unfolding r using that by (simp add: set_hostname_frame set_protocol_web)
  have hst: "host (fst (switchDomain hp p d u st)) = Some h"
    if a: "scheme u = js ''http'' \<or> scheme u = js ''https''" "p = js ''http'' \<or> p = js ''https''"
      and b: "\<exists>ps. path u = PathSegments ps" "d \<noteq> []"
      "\<forall>c \<in> set d. \<not> isTabOrNewline c \<and> c \<noteq> 0x3A \<and> c \<noteq> 0x2F \<and> c \<noteq> 0x3F \<and> c \<noteq> 0x23 \<and> c \<noteq> 0x5C"
      "hp d False = Some h"
  proof -
    from a have "scheme ?u1 = js ''http'' \<or> scheme ?u1 = js ''https''"
      by (simp add: set_protocol_web)
    moreover from b(1) obtain ps where "path ?u1 = PathSegments ps"
      by (auto simp: set_protocol_frame)
    ultimately show ?thesis
      unfolding r using b(2-4) by (rule set_hostname_web)
  qed
  from frame sch hst show ?thesis by blast
qed

theorem switchDomain_rewrites_scheme_and_hostname_only_witness:
  "fst (switchDomain asciiHost (js ''http'') (js ''test.example.com'')
         (webTab (js ''https'') (js ''example.com'')) None)
     = webTab (js ''http'') (js ''test.example.com'')"
proof -
  let ?u = "webTab (js ''https'') (js ''example.com'')"
  let ?r = "fst (switchDomain asciiHost (js ''http'') (js ''test.example.com'') ?u None)"
  have h: "scheme ?u = js ''http'' \<or> scheme ?u = js ''https''"
    "js ''http'' = js ''http'' \<or> js ''http'' = js ''https''"
    "\<exists>ps. path ?u = PathSegments ps" "js ''test.example.com'' \<noteq> []"
    "\<forall>c \<in> set (js ''test.example.com''). \<not> isTabOrNewline c \<and> c \<noteq> 0x3A \<and> c \<noteq> 0x2F \<and>
        c \<noteq> 0x3F \<and> c \<noteq> 0x23 \<and> c \<noteq> 0x5C"
    "asciiHost (js ''test.example.com'') False = Some (js ''test.example.com'')"
    by (simp_all add: webTab_def js_def isTabOrNewline_def asciiHost_def asciiLower_def)
  note th = switchDomain_rewrites_scheme_and_hostname_only
    [of asciiHost "js ''http''" "js ''test.example.com''" ?u None "js ''test.example.com''"]
  from th h have r: "path ?r = path ?u" "query ?r = query ?u" "fragment ?r = fragment ?u"
    "scheme ?r = js ''http''" "host ?r = Some (js ''test.example.com'')"
    by blast+
  have "username ?r = [] \<and> password ?r = [] \<and> port ?r = None"
    by (simp add: switchDomain_def switchedUrl_def set_hostname_frame set_protocol_frame webTab_def
        set_protocol_def schemeOverride_def overrideScheme_def js_def isTabOrNewline_def
        isAsciiAlpha_def isSchemeChar_def asciiLower_def isSpecial_def defaultPort_def
        includesCredentials_def)
  with r show ?thesis
    by (simp add: webTab_def url.equality)
qed

text \<open>
  Claim C9, against the code: a tab at \<^verbatim>\<open>http://example.com:443/docs\<close> is switched
  to \<^verbatim>\<open>https\<close> and \<^verbatim>\<open>test.example.com\<close>. The URL it is sent to has no port any more: 443 is
  the default port of the new scheme, and the \<^verbatim>\<open>protocol\<close> setter makes such a port null.
\<close>

theorem switch_drops_default_port:
  "port portTab = Some 443 \<and>
   port (fst (switchDomain asciiHost (js ''https'') (js ''test.example.com'') portTab None)) = None"
  by (simp add: switchDomain_def switchedUrl_def set_protocol_def set_hostname_def hostnameOverride_def
      portTab_def asciiHost_def js_def isTabOrNewline_def isAsciiAlpha_def isSchemeChar_def
      asciiLower_def isSpecial_def defaultPort_def includesCredentials_def
      schemeOverride_def overrideScheme_def)

text \<open>
  Claim C9, amended. For every tab URL and every target, the switch leaves the username
  and the password as they were; the assignment to \<^verbatim>\<open>hostname\<close> leaves the port as it was;
  and the URL the tab is sent to has the port of the tab's URL, unless that port is the
  default port of the scheme the URL ends up with, in which case it has no port.
\<close>

theorem switchDomain_credentials_and_port:
  "username (fst (switchDomain hp p d u st)) = username u \<and>
   password (fst (switchDomain hp p d u st)) = password u \<and>
   port (set_hostname hp u d) = port u \<and>
   (port (fst (switchDomain hp p d u st)) = port u \<or>
    (port (fst (switchDomain hp p d u st)) = None \<and>
     port u = defaultPort (scheme (fst (switchDomain hp p d u st)))))"
proof -
  let ?u1 = "set_protocol u (p @ js '':'')"
  have r: "fst (switchDomain hp p d u st) = set_hostname hp ?u1 d"
    by (simp add: switchDomain_def switchedUrl_def)
  have "port ?u1 = port u \<or> (port ?u1 = None \<and> port u = defaultPort (scheme ?u1))"
    unfolding set_protocol_def by (rule schemeOverride_port)
  then show ?thesis
    unfolding r by (simp add: set_hostname_frame set_protocol_frame)
qed

theorem switchDomain_credentials_and_port_witness:
  "username (fst (switchDomain asciiHost (js ''https'') (js ''test.example.com'')
      (portTab\<lparr>username := js ''user'', password := js ''secret'', port := Some 8080\<rparr>) None))
     = js ''user'' \<and>
   password (fst (switchDomain asciiHost (js ''https'') (js ''test.example.com'')
      (portTab\<lparr>username := js ''user'', password := js ''secret'', port := Some 8080\<rparr>) None))
     = js ''secret'' \<and>
   port (fst (switchDomain asciiHost (js ''https'') (js ''test.example.com'')
      (portTab\<lparr>username := js ''user'', password := js ''secret'', port := Some 8080\<rparr>) None))
     = Some 8080"
proof -
  let ?u = "portTab\<lparr>username := js ''user'', password := js ''secret'', port := Some 8080\<rparr>"
  let ?r = "fst (switchDomain asciiHost (js ''https'') (js ''test.example.com'') ?u None)"
  have "scheme ?r = js ''https''"
    by (simp add: switchDomain_def switchedUrl_def set_hostname_frame set_protocol_web portTab_def)
  then have "port ?u \<noteq> defaultPort (scheme ?r)"
    by (simp add: portTab_def defaultPort_def js_def)
  with switchDomain_credentials_and_port
    [of asciiHost "js ''https''" "js ''test.example.com''" ?u None]
  show ?thesis
    by (simp add: portTab_def)
qed

end
